theory Spec2Isabelle
  imports Main
begin

section \<open>Values, parse states and outcomes\<close>

text \<open>
  The library is untyped JavaScript. The values a parser hands back are modelled by a
  small universe: \<open>null\<close>, \<open>undefined\<close>, booleans, strings, numbers, arrays and objects
  (an object is the list of its properties in insertion order). The default result
  \<open>{ str: chunk }\<close> is \<open>JObject [(''str'', JString chunk)]\<close>.
\<close>

datatype val =
    JNull
  | JUndefined
  | JBool bool
  | JString string
  | JNumber int
  | JArray "val list"
  | JObject "(string \<times> val) list"

text \<open>\<open>function id (val) { return val }\<close>\<close>

definition id_val :: "val \<Rightarrow> val" where
  "id_val v = v"

text \<open>
  \<open>ParseState (string, offset)\<close>: the constructor stores its two arguments and checks
  nothing. Offsets are natural numbers: \<open>parse\<close> starts at \<open>0\<close> and \<open>read\<close> only adds a
  length.
\<close>

record ParseState =
  string :: string
  offset :: nat

text \<open>
  \<open>String.prototype.slice (from, to)\<close> on non-negative integer arguments: both ends are
  clamped to the length of the string, and an empty range gives the empty string.
\<close>

definition slice :: "string \<Rightarrow> nat \<Rightarrow> nat \<Rightarrow> string" where
  "slice s from to =
     (let len = length s; a = min from len; b = min to len
      in take (b - a) (drop a s))"

text \<open>\<open>peek (n)\<close>: \<open>this.string.slice(this.offset, this.offset + n)\<close>\<close>

definition peek :: "ParseState \<Rightarrow> nat \<Rightarrow> string" where
  "peek this n = slice (string this) (offset this) (offset this + n)"

text \<open>\<open>read (n)\<close>: \<open>new ParseState(this.string, this.offset + n)\<close>\<close>

definition read :: "ParseState \<Rightarrow> nat \<Rightarrow> ParseState" where
  "read this n = \<lparr>string = string this, offset = offset this + n\<rparr>"

text \<open>\<open>isComplete ()\<close>: \<open>this.offset === this.string.length\<close>\<close>

definition isComplete :: "ParseState \<Rightarrow> bool" where
  "isComplete this \<longleftrightarrow> offset this = length (string this)"

text \<open>
  A call of a JavaScript function either returns a value, throws, or never returns.
  The outcome of a call is \<open>None\<close> when it does not return, \<open>Some (Inl e)\<close> when it
  throws \<open>e\<close>, and \<open>Some (Inr x)\<close> when it returns \<open>x\<close>.
\<close>

datatype error = TypeError | SyntaxError | RangeError

type_synonym 'a outcome = "(error + 'a) option"

abbreviation Return :: "'a \<Rightarrow> 'a outcome" where
  "Return x \<equiv> Some (Inr x)"

abbreviation Throw :: "error \<Rightarrow> 'a outcome" where
  "Throw e \<equiv> Some (Inl e)"

text \<open>
  What a function called as a parser returns. The combinators return the two-element
  array \<open>[value, parseState]\<close> for a match and \<open>null\<close> otherwise. Other functions
  called in a parser's place (one written by hand, or one that \<open>ref\<close> finds on the
  prototype chain of the registry) may return another falsy value, such as \<open>undefined\<close>
  or \<open>false\<close>; \<open>falsy\<close> lists the falsy values of the language. An array is truthy,
  so the tests \<open>if (parsed)\<close> and \<open>result && ...\<close> of the source tell a match from
  every falsy value, and nothing in the source tells the falsy values from each other.
  A function that returns a truthy value other than such an array is not a parser of
  this model.
\<close>

datatype falsy = Null | Undefined | Boolean_false | Zero | Not_a_number | Empty_string

datatype returned =
    Match val ParseState
  | Falsy falsy

type_synonym parser = "ParseState \<Rightarrow> returned outcome"

text \<open>
  A formatter is a function on values; its call, like any call, returns, throws or does
  not return. The optional argument \<open>f\<close> is \<open>None\<close> when it is left out;
  \<open>f = f || id\<close> then picks \<open>id\<close>, whose call returns its argument.
\<close>

type_synonym formatter = "(val \<Rightarrow> val outcome) option"

definition or_id :: "formatter \<Rightarrow> val \<Rightarrow> val outcome" where
  "or_id f = (case f of None \<Rightarrow> (\<lambda>v. Return (id_val v)) | Some g \<Rightarrow> g)"

text \<open>
  The array literal \<open>[f(x), state]\<close> with which every combinator returns a match: the
  call \<open>f(x)\<close> is evaluated first, and when it throws or does not return, neither does
  the literal give an array.
\<close>

definition match_array :: "val outcome \<Rightarrow> ParseState \<Rightarrow> returned outcome" where
  "match_array formatted st =
     (case formatted of
        None \<Rightarrow> None
      | Some (Inl e) \<Rightarrow> Throw e
      | Some (Inr v) \<Rightarrow> Return (Match v st))"

section \<open>Public interface\<close>

text \<open>
  \<open>parse (parser, string)\<close>:
  \<^verbatim>\<open>var result = parser(new ParseState(string, 0))
  return result && result[1].isComplete() ? result[0] : null\<close>
\<close>

definition parse :: "parser \<Rightarrow> string \<Rightarrow> val outcome" where
  "parse parser s =
     (case parser \<lparr>string = s, offset = 0\<rparr> of
        None \<Rightarrow> None
      | Some (Inl e) \<Rightarrow> Throw e
      | Some (Inr result) \<Rightarrow>
          Return (case result of
                    Falsy x \<Rightarrow> JNull
                  | Match v st \<Rightarrow> if isComplete st then v else JNull))"

section \<open>Combinators\<close>

text \<open>
  \<open>str (string, f)\<close>:
  \<^verbatim>\<open>var chunk = parseState.peek(string.length)
  return chunk === string ? [f({ str: chunk }), parseState.read(string.length)] : null\<close>
\<close>

definition str :: "string \<Rightarrow> formatter \<Rightarrow> parser" where
  "str s f = (\<lambda>parseState.
     let chunk = peek parseState (length s)
     in if chunk = s
        then match_array (or_id f (JObject [(''str'', JString chunk)])) (read parseState (length s))
        else Return (Falsy Null))"

text \<open>
  \<open>char (chars, f)\<close> builds \<open>new RegExp('[' + chars + ']')\<close> on every call and tests the
  one-character chunk against it. The regular-expression engine belongs to the
  platform, not to the library, so it is a parameter of the model: \<open>RegExp src\<close> is
  \<open>Inl e\<close> when the constructor throws on the pattern \<open>src\<close>, and \<open>Inr test\<close> with the
  regex's \<open>test\<close> method otherwise.
\<close>

type_synonym regexp = "string \<Rightarrow> error + (string \<Rightarrow> bool)"

definition char :: "regexp \<Rightarrow> string \<Rightarrow> formatter \<Rightarrow> parser" where
  "char RegExp chars f = (\<lambda>parseState.
     let chunk = peek parseState 1
     in case RegExp (''['' @ chars @ '']'') of
          Inl e \<Rightarrow> Throw e
        | Inr test \<Rightarrow>
            if test chunk
            then match_array (or_id f (JObject [(''char'', JString chunk)])) (read parseState 1)
            else Return (Falsy Null))"

text \<open>
  \<open>seq (parsers, f)\<close> reduces the array from the left over the accumulator
  \<open>{ success, state, matches }\<close>. An exception thrown by a sub-parser leaves the
  reduction, and a sub-parser that does not return keeps the reduction from returning.
\<close>

record seq_acc =
  success :: bool
  state :: ParseState
  matches :: "val list"

definition seq_step :: "seq_acc outcome \<Rightarrow> parser \<Rightarrow> seq_acc outcome" where
  "seq_step r parser =
     (case r of
        None \<Rightarrow> None
      | Some (Inl e) \<Rightarrow> Throw e
      | Some (Inr acc) \<Rightarrow>
          if \<not> success acc then Return acc
          else (case parser (state acc) of
                  None \<Rightarrow> None
                | Some (Inl e) \<Rightarrow> Throw e
                | Some (Inr parsed) \<Rightarrow>
                    (case parsed of
                       Match v st \<Rightarrow> Return (acc\<lparr>matches := matches acc @ [v], state := st\<rparr>)
                     | Falsy x \<Rightarrow> Return (acc\<lparr>success := False\<rparr>))))"

definition seq :: "parser list \<Rightarrow> formatter \<Rightarrow> parser" where
  "seq parsers f = (\<lambda>parseState.
     case foldl seq_step (Return \<lparr>success = True, state = parseState, matches = []\<rparr>) parsers of
       None \<Rightarrow> None
     | Some (Inl e) \<Rightarrow> Throw e
     | Some (Inr result) \<Rightarrow>
         if success result
         then match_array (or_id f (JObject [(''seq'', JArray (matches result))])) (state result)
         else Return (Falsy Null))"

text \<open>
  \<open>rep (parser, n, f)\<close>. The closure is entered with a parse state, which is truthy, so
  the body of \<open>while (parseState)\<close> runs at least once and \<open>lastState\<close> is never read as
  its initial \<open>null\<close>. One round of the loop sets \<open>lastState = parseState\<close> and applies
  the parser: on a match it pushes the value and goes round again from the new state;
  on a falsy value it sets \<open>parseState = null\<close>, which ends the loop with \<open>lastState\<close>
  the state of this last attempt. Here the array \<open>matches\<close> is a list that can grow
  without bound, and nothing else bounds the number of rounds, so the loop is a partial
  function: \<open>None\<close> when it does not return.
\<close>

partial_function (option) rep_while ::
    "parser \<Rightarrow> val list \<Rightarrow> ParseState \<Rightarrow> (error + val list \<times> ParseState) option" where
  "rep_while parser ms parseState =
     (case parser parseState of
        None \<Rightarrow> None
      | Some (Inl e) \<Rightarrow> Throw e
      | Some (Inr parsed) \<Rightarrow>
          (case parsed of
             Match v st \<Rightarrow> rep_while parser (ms @ [v]) st
           | Falsy x \<Rightarrow> Return (ms, parseState)))"

definition rep :: "parser \<Rightarrow> nat \<Rightarrow> formatter \<Rightarrow> parser" where
  "rep parser n f = (\<lambda>parseState.
     case rep_while parser [] parseState of
       None \<Rightarrow> None
     | Some (Inl e) \<Rightarrow> Throw e
     | Some (Inr (ms, lastState)) \<Rightarrow>
         if length ms \<ge> n
         then match_array (or_id f (JObject [(''rep'', JArray ms)])) lastState
         else Return (Falsy Null))"

text \<open>
  The same loop on an array as an engine has it: an array holds at most \<open>capacity\<close>
  elements (the language allows no more than \<open>2^32 - 1\<close>, engines fewer), and
  \<open>matches.push\<close> on a full array throws a \<open>RangeError\<close>. Every round that goes on has
  pushed one more element, so the recursion is bounded by the room left in the array.
\<close>

function rep_while_capped ::
    "nat \<Rightarrow> parser \<Rightarrow> val list \<Rightarrow> ParseState \<Rightarrow> (error + val list \<times> ParseState) option" where
  "rep_while_capped capacity parser ms parseState =
     (case parser parseState of
        None \<Rightarrow> None
      | Some (Inl e) \<Rightarrow> Throw e
      | Some (Inr parsed) \<Rightarrow>
          (case parsed of
             Match v st \<Rightarrow>
               if length ms < capacity
               then rep_while_capped capacity parser (ms @ [v]) st
               else Throw RangeError
           | Falsy x \<Rightarrow> Return (ms, parseState)))"
  by pat_completeness auto
termination
  by (relation "measure (\<lambda>(capacity, parser, ms, parseState). capacity - length ms)") auto

definition rep_capped :: "nat \<Rightarrow> parser \<Rightarrow> nat \<Rightarrow> formatter \<Rightarrow> parser" where
  "rep_capped capacity parser n f = (\<lambda>parseState.
     case rep_while_capped capacity parser [] parseState of
       None \<Rightarrow> None
     | Some (Inl e) \<Rightarrow> Throw e
     | Some (Inr (ms, lastState)) \<Rightarrow>
         if length ms \<ge> n
         then match_array (or_id f (JObject [(''rep'', JArray ms)])) lastState
         else Return (Falsy Null))"

text \<open>
  \<open>opt (parser, f)\<close>:
  \<^verbatim>\<open>var parsed = parser(parseState)
  return parsed ? [f({ opt: parsed[0] }), parsed[1]] : [f({ opt: null }), parseState]\<close>
\<close>

definition opt :: "parser \<Rightarrow> formatter \<Rightarrow> parser" where
  "opt parser f = (\<lambda>parseState.
     case parser parseState of
       None \<Rightarrow> None
     | Some (Inl e) \<Rightarrow> Throw e
     | Some (Inr parsed) \<Rightarrow>
         (case parsed of
            Match v st \<Rightarrow> match_array (or_id f (JObject [(''opt'', v)])) st
          | Falsy x \<Rightarrow> match_array (or_id f (JObject [(''opt'', JNull)])) parseState))"

text \<open>
  \<open>alt (parsers, f)\<close>: the \<open>for\<close> loop walks the array from index \<open>0\<close>, applies each
  parser to the same \<open>parseState\<close> and returns from inside the loop at the first match.
\<close>

fun alt_for :: "parser list \<Rightarrow> (val \<Rightarrow> val outcome) \<Rightarrow> parser" where
  "alt_for [] f parseState = Return (Falsy Null)"
| "alt_for (p # parsers) f parseState =
     (case p parseState of
        None \<Rightarrow> None
      | Some (Inl e) \<Rightarrow> Throw e
      | Some (Inr result) \<Rightarrow>
          (case result of
             Match v st \<Rightarrow> match_array (f (JObject [(''alt'', v)])) st
           | Falsy x \<Rightarrow> alt_for parsers f parseState))"

definition alt :: "parser list \<Rightarrow> formatter \<Rightarrow> parser" where
  "alt parsers f = (\<lambda>parseState. alt_for parsers (or_id f) parseState)"

text \<open>
  \<open>ref (ctx, name)\<close> returns \<open>function (parseState) { return ctx[name](parseState) }\<close>.
  The closure holds a reference to the object \<open>ctx\<close>, not a copy of it, and reads the
  property when it is called. Objects live in a store, \<open>ctx\<close> is an address in it, and
  the closure takes the store of the moment of the call.

  An object has its own properties, the ones the grammar author binds, and a prototype
  chain; \<open>proto\<close> is what the chain provides. Both map a name to the function found
  there, given by what its call does (under that same store, as a method of the
  object), and to \<open>None\<close> when there is no function to call. \<open>ctx[name]\<close> looks among the
  own properties first and in the chain next. Calling what is not a function is a
  \<open>TypeError\<close>.
\<close>

record obj =
  own :: "string \<Rightarrow> parser option"
  proto :: "string \<Rightarrow> parser option"

type_synonym store = "nat \<Rightarrow> obj"

definition property :: "obj \<Rightarrow> string \<Rightarrow> parser option" where
  "property object name =
     (case own object name of
        Some q \<Rightarrow> Some q
      | None \<Rightarrow> proto object name)"

definition ref :: "nat \<Rightarrow> string \<Rightarrow> store \<Rightarrow> parser" where
  "ref ctx name = (\<lambda>heap parseState.
     case property (heap ctx) name of
       None \<Rightarrow> Throw TypeError
     | Some q \<Rightarrow> q parseState)"

section \<open>Parsers built from the combinators\<close>

text \<open>
  A grammar author builds parsers by nesting calls of the seven combinators, and a
  registry entry may refer back to itself through \<open>ref\<close>. The closures so built are
  finite objects even when the grammar is recursive; \<open>grammar\<close> is the shape of such a
  closure, with one constructor for each combinator and the arguments it was given.
\<close>

datatype grammar =
    GStr string formatter
  | GChar string formatter
  | GSeq "grammar list" formatter
  | GRep grammar nat formatter
  | GOpt grammar formatter
  | GAlt "grammar list" formatter
  | GRef nat string

text \<open>
  \<open>parser_of k RegExp objects g\<close> is the parser that the closure \<open>g\<close> is, when
  \<open>objects a x\<close> is what the name \<open>x\<close> resolves to in the registry at address \<open>a\<close>: a
  closure of this kind, or nothing (a function that a name reaches on the prototype
  chain alone is not built from the combinators, and these registries have none).
  Each constructor is sent to its combinator. A call
  through \<open>ref\<close> enters the closure stored under the name, which may call through \<open>ref\<close>
  again: \<open>k\<close> bounds the depth of these nested calls, and a call that needs more depth
  than \<open>k\<close> has not returned (\<open>None\<close>). What the closure does is what \<open>parser_of k\<close>
  does for some \<open>k\<close>.
\<close>

fun parser_of :: "nat \<Rightarrow> regexp \<Rightarrow> (nat \<Rightarrow> string \<Rightarrow> grammar option) \<Rightarrow> grammar \<Rightarrow> parser" where
  "parser_of k RegExp objects (GStr s f) = str s f"
| "parser_of k RegExp objects (GChar chars f) = char RegExp chars f"
| "parser_of k RegExp objects (GSeq gs f) = seq (map (parser_of k RegExp objects) gs) f"
| "parser_of k RegExp objects (GRep g n f) = rep (parser_of k RegExp objects g) n f"
| "parser_of k RegExp objects (GOpt g f) = opt (parser_of k RegExp objects g) f"
| "parser_of k RegExp objects (GAlt gs f) = alt (map (parser_of k RegExp objects) gs) f"
| "parser_of 0 RegExp objects (GRef ctx name) = (\<lambda>parseState. None)"
| "parser_of (Suc k) RegExp objects (GRef ctx name) =
     ref ctx name
       (\<lambda>a. \<lparr>own = (\<lambda>x. map_option (parser_of k RegExp objects) (objects a x)),
             proto = (\<lambda>x. None)\<rparr>)"

section \<open>Notions of the specification\<close>

text \<open>
  The maximal greedy run of a parser \<open>p\<close> from a cursor \<open>c\<close>: \<open>greedy_run p c vs c'\<close>
  holds when \<open>p\<close> matches \<open>length vs\<close> times in a row, each time from the cursor the match
  before it returned, with the values \<open>vs\<close>, and then fails (returns a falsy value) at
  \<open>c'\<close>.
\<close>

inductive greedy_run :: "parser \<Rightarrow> ParseState \<Rightarrow> val list \<Rightarrow> ParseState \<Rightarrow> bool" where
  run_ends: "p c = Return (Falsy x) \<Longrightarrow> greedy_run p c [] c"
| run_goes_on: "p c = Return (Match v c1) \<Longrightarrow> greedy_run p c1 vs c' \<Longrightarrow> greedy_run p c (v # vs) c'"

text \<open>A parser never rewinds when no match of it returns a cursor before the one it was given.\<close>

definition never_rewinds :: "parser \<Rightarrow> bool" where
  "never_rewinds p \<longleftrightarrow> (\<forall>c v c'. p c = Return (Match v c') \<longrightarrow> offset c \<le> offset c')"

text \<open>
  \<open>settled_in p q\<close>: wherever a call of \<open>p\<close> comes back, returning or throwing, the call
  of \<open>q\<close> on the same cursor comes back in the same way.
\<close>

definition settled_in :: "parser \<Rightarrow> parser \<Rightarrow> bool" where
  "settled_in p q \<longleftrightarrow> (\<forall>c r. p c = Some r \<longrightarrow> q c = Some r)"

text \<open>
  \<open>with_formatter g r\<close> is the outcome \<open>r\<close> with the formatter \<open>g\<close> called on the value of
  a match and nothing else touched: the same cursor, and a non-match, an exception or
  a call that does not return stay what they are.
\<close>

definition with_formatter :: "(val \<Rightarrow> val outcome) \<Rightarrow> returned outcome \<Rightarrow> returned outcome" where
  "with_formatter g r =
     (case r of
        Some (Inr (Match v st)) \<Rightarrow> match_array (g v) st
      | _ \<Rightarrow> r)"

text \<open>
  \<open>returns_on g r\<close>: when \<open>r\<close> is a match, the call of the formatter \<open>g\<close> on its value
  returns (it neither throws nor runs for ever).
\<close>

definition returns_on :: "(val \<Rightarrow> val outcome) \<Rightarrow> returned outcome \<Rightarrow> bool" where
  "returns_on g r \<longleftrightarrow>
     (case r of
        Some (Inr (Match v st)) \<Rightarrow> (case g v of Some (Inr w) \<Rightarrow> True | _ \<Rightarrow> False)
      | _ \<Rightarrow> True)"

text \<open>
  \<open>only_value_differs g plain formatted\<close>: the outcome \<open>formatted\<close> is a match exactly when
  \<open>plain\<close> is one, then with the same cursor and with the value that \<open>g\<close> returns on the
  value of \<open>plain\<close>; and when \<open>plain\<close> is no match, the two outcomes are the same.
\<close>

definition only_value_differs ::
    "(val \<Rightarrow> val outcome) \<Rightarrow> returned outcome \<Rightarrow> returned outcome \<Rightarrow> bool" where
  "only_value_differs g plain formatted \<longleftrightarrow>
     (case plain of
        Some (Inr (Match v st)) \<Rightarrow>
          (case g v of Some (Inr w) \<Rightarrow> formatted = Return (Match w st) | _ \<Rightarrow> False)
      | _ \<Rightarrow> formatted = plain)"

section \<open>Example parsers, formatters and registries\<close>

text \<open>
  A hand-written parser, as a caller may pass to any combinator:
  \<open>function (parseState) { return [null, parseState.read(1)] }\<close>.
  It matches everywhere, also at and past the end of the string.
\<close>

definition skip_one :: parser where
  "skip_one parseState = Return (Match JNull (read parseState 1))"

text \<open>
  A stand-in for the platform's \<open>RegExp\<close> on the patterns the README and the tests
  use: a bracketed class of single characters and ranges \<open>a-z\<close>. \<open>test\<close> on a chunk
  that is not one character is false.
\<close>

fun class_member :: "string \<Rightarrow> char \<Rightarrow> bool" where
  "class_member (a # m # b # rest) ch =
     (if m = CHR ''-''
      then ((of_char a :: nat) \<le> of_char ch \<and> (of_char ch :: nat) \<le> of_char b) \<or> class_member rest ch
      else a = ch \<or> class_member (m # b # rest) ch)"
| "class_member (a # rest) ch = (a = ch \<or> class_member rest ch)"
| "class_member [] ch = False"

definition class_RegExp :: regexp where
  "class_RegExp src =
     (if 2 \<le> length src \<and> hd src = CHR ''['' \<and> last src = CHR '']''
      then Inr (\<lambda>chunk. case chunk of [ch] \<Rightarrow> class_member (butlast (tl src)) ch | _ \<Rightarrow> False)
      else Inl SyntaxError)"

text \<open>
  The recursive grammar \<open>ctx.nested = alt([seq([str('('), ref(ctx, 'nested'), str(')')]), char('0-9')])\<close>,
  with \<open>ctx\<close> the object at address \<open>0\<close>.
\<close>

definition nested_ctx :: "nat \<Rightarrow> string \<Rightarrow> grammar option" where
  "nested_ctx a x =
     (if a = 0 \<and> x = ''nested''
      then Some (GAlt [GSeq [GStr ''('' None, GRef 0 ''nested'', GStr '')'' None] None,
                      GChar ''0-9'' None] None)
      else None)"

text \<open>
  Reading a property \<open>v.name\<close>, for a name that no prototype defines (such as \<open>opt\<close> and
  \<open>str\<close>): a \<open>TypeError\<close> on \<open>null\<close> and \<open>undefined\<close>, the property of an object when it
  has it, and \<open>undefined\<close> otherwise.
\<close>

definition dot :: "val \<Rightarrow> string \<Rightarrow> val outcome" where
  "dot v name =
     (case v of
        JNull \<Rightarrow> Throw TypeError
      | JUndefined \<Rightarrow> Throw TypeError
      | JObject ps \<Rightarrow> Return (case map_of ps name of Some w \<Rightarrow> w | None \<Rightarrow> JUndefined)
      | _ \<Rightarrow> Return JUndefined)"

text \<open>
  The formatter of the test suite's \<open>opt\<close> case,
  \<open>function (v) { return '#' + v.opt && v.opt.str }\<close>. The operator \<open>+\<close> binds tighter than
  \<open>&&\<close>, and \<open>'#' + v.opt\<close> is a non-empty string, which is truthy: the function
  returns \<open>v.opt.str\<close>, and throws when \<open>v.opt\<close> is \<open>null\<close>.
\<close>

definition test_opt_format :: "val \<Rightarrow> val outcome" where
  "test_opt_format v =
     (case dot v ''opt'' of
        None \<Rightarrow> None
      | Some (Inl e) \<Rightarrow> Throw e
      | Some (Inr w) \<Rightarrow> dot w ''str'')"

text \<open>
  An object written as a literal inherits from \<open>Object.prototype\<close>. Of the functions it
  finds there, these three are predicates: called with a parse state as their argument,
  on an object that has no own property named by it, each returns \<open>false\<close>. Under the
  other names that \<open>Object.prototype\<close> defines (\<open>toString\<close>, \<open>valueOf\<close> and so on) the
  function found returns a truthy value that is no match, which is outside this model:
  \<open>object_literal\<close> stands for the literal at the three names below and at the names
  that \<open>Object.prototype\<close> does not define.
\<close>

definition inherited_predicates :: "string \<Rightarrow> parser option" where
  "inherited_predicates name =
     (if name = ''hasOwnProperty'' \<or> name = ''isPrototypeOf'' \<or> name = ''propertyIsEnumerable''
      then Some (\<lambda>parseState. Return (Falsy Boolean_false))
      else None)"

definition object_literal :: "(string \<Rightarrow> parser option) \<Rightarrow> obj" where
  "object_literal props = \<lparr>own = props, proto = inherited_predicates\<rparr>"

text \<open>The store of the test suite's \<open>ref\<close> case: \<open>var ctx = { number: ... }\<close>, here with \<open>str('4')\<close>.\<close>

definition empty_store :: store where
  "empty_store a = object_literal (\<lambda>x. None)"

definition number_store :: store where
  "number_store a = object_literal [''number'' \<mapsto> str ''4'' None]"

section \<open>Running the model\<close>

lemmas run_defs =
  str_def char_def seq_def seq_step_def rep_def opt_def alt_def ref_def parse_def
  peek_def slice_def read_def isComplete_def or_id_def id_val_def match_array_def
  property_def class_RegExp_def Let_def

text \<open>The examples of the README and of the test suite come out as documented there.\<close>

lemma readme_number_2017:
  "parse (alt [str ''0'' None,
               seq [char class_RegExp ''1-9'' None, rep (char class_RegExp ''0-9'' None) 0 None] None] None)
         ''2017''
   = Return (JObject [(''alt'', JObject [(''seq'', JArray
        [JObject [(''char'', JString ''2'')],
         JObject [(''rep'', JArray [JObject [(''char'', JString ''0'')],
                                    JObject [(''char'', JString ''1'')],
                                    JObject [(''char'', JString ''7'')]])]])])])"
  by (simp add: run_defs rep_while.simps)

lemma readme_number_000:
  "parse (alt [str ''0'' None,
               seq [char class_RegExp ''1-9'' None, rep (char class_RegExp ''0-9'' None) 0 None] None] None)
         ''000''
   = Return JNull"
  by (simp add: run_defs rep_while.simps)

lemma test_rep_minimum_not_met:
  "parse (rep (char class_RegExp ''0-9'' None) 2 None) ''1'' = Return JNull"
  by (simp add: run_defs rep_while.simps)

lemma test_seq_addition:
  "parse (seq [char class_RegExp ''0-9'' None, str ''+'' None, char class_RegExp ''0-9'' None] None) ''2+5''
   = Return (JObject [(''seq'', JArray [JObject [(''char'', JString ''2'')],
                                        JObject [(''str'', JString ''+'')],
                                        JObject [(''char'', JString ''5'')]])])"
  by (simp add: run_defs)

lemma test_opt_trailing_input:
  "parse (opt (str ''+'' None) None) ''asdf'' = Return JNull"
  by (simp add: run_defs)

lemma test_opt_formatted:
  "parse (opt (str ''+'' None) (Some test_opt_format)) ''+'' = Return (JString ''+'')"
  by (simp add: run_defs test_opt_format_def dot_def)

lemma test_ref_number:
  "parse (ref 0 ''number'' number_store) ''4'' = Return (JObject [(''str'', JString ''4'')])"
  by (simp add: run_defs number_store_def object_literal_def)

text \<open>The empty sequence and the empty string match everywhere and consume nothing.\<close>

lemma seq_empty: "seq [] None c = Return (Match (JObject [(''seq'', JArray [])]) c)"
  by (simp add: seq_def or_id_def id_val_def match_array_def)

lemma str_empty: "str [] None c = Return (Match (JObject [(''str'', JString [])]) c)"
  by (simp add: str_def peek_def slice_def read_def or_id_def id_val_def match_array_def Let_def)

text \<open>Without a formatter the array literal of a match is the array.\<close>

lemma or_id_None [simp]: "or_id None v = Return v"
  by (simp add: or_id_def id_val_def)

lemma match_array_Return [simp]: "match_array (Return v) st = Return (Match v st)"
  by (simp add: match_array_def)

lemma match_array_not_falsy [simp]: "match_array r st \<noteq> Return (Falsy y)"
  by (simp add: match_array_def split: option.splits sum.splits)

section \<open>The entry point\<close>

text \<open>
  Claim C1. \<open>parse (p, s)\<close> hands out the value of \<open>p\<close> exactly when \<open>p\<close>, applied to the
  fresh cursor at offset \<open>0\<close>, matches and returns a cursor at offset \<open>length s\<close>; when
  \<open>p\<close> does not match, or matches only a prefix and leaves the cursor elsewhere, it
  returns \<open>null\<close>. The returned cursor is a cursor of \<open>s\<close>, as every cursor made by
  \<open>read\<close> from the fresh one is.
\<close>

theorem parse_accepts_only_total_match:
  assumes "parser \<lparr>string = s, offset = 0\<rparr> = Return result"
    and "\<forall>v st. result = Match v st \<longrightarrow> string st = s"
  shows "parse parser s =
           Return (case result of
                     Match v st \<Rightarrow> if offset st = length s then v else JNull
                   | Falsy x \<Rightarrow> JNull)"
  using assms by (auto simp: parse_def isComplete_def split: returned.splits)

theorem parse_accepts_only_total_match_witness:
  "str ''he'' None \<lparr>string = ''hello'', offset = 0\<rparr>
     = Return (Match (JObject [(''str'', JString ''he'')]) \<lparr>string = ''hello'', offset = 2\<rparr>)
   \<and> parse (str ''he'' None) ''hello'' = Return JNull
   \<and> str ''hello'' None \<lparr>string = ''hello'', offset = 0\<rparr>
     = Return (Match (JObject [(''str'', JString ''hello'')]) \<lparr>string = ''hello'', offset = 5\<rparr>)
   \<and> parse (str ''hello'' None) ''hello'' = Return (JObject [(''str'', JString ''hello'')])
   \<and> str ''hello'' None \<lparr>string = ''world'', offset = 0\<rparr> = Return (Falsy Null)
   \<and> parse (str ''hello'' None) ''world'' = Return JNull"
proof -
  have prefix: "str ''he'' None \<lparr>string = ''hello'', offset = 0\<rparr>
     = Return (Match (JObject [(''str'', JString ''he'')]) \<lparr>string = ''hello'', offset = 2\<rparr>)"
    by (simp add: run_defs)
  have whole: "str ''hello'' None \<lparr>string = ''hello'', offset = 0\<rparr>
     = Return (Match (JObject [(''str'', JString ''hello'')]) \<lparr>string = ''hello'', offset = 5\<rparr>)"
    by (simp add: run_defs)
  have miss: "str ''hello'' None \<lparr>string = ''world'', offset = 0\<rparr> = Return (Falsy Null)"
    by (simp add: run_defs)
  show ?thesis
    using prefix whole miss
      parse_accepts_only_total_match [where parser = "str ''he'' None" and s = "''hello''", OF prefix]
      parse_accepts_only_total_match [where parser = "str ''hello'' None" and s = "''hello''", OF whole]
      parse_accepts_only_total_match [where parser = "str ''hello'' None" and s = "''world''", OF miss]
    by simp
qed

text \<open>
  Claim C10. A match that consumes the whole input can still come out of \<open>parse\<close> as
  \<open>null\<close>: \<open>str ('x', function () { return null })\<close> matches all of \<open>'x'\<close> with the
  value \<open>null\<close>, and \<open>parse\<close> returns that value, which is also what it returns for
  the input \<open>'y'\<close> that the parser does not match.
\<close>

theorem parse_null_value_looks_like_failure:
  "str ''x'' (Some (\<lambda>v. Return JNull)) \<lparr>string = ''x'', offset = 0\<rparr>
     = Return (Match JNull \<lparr>string = ''x'', offset = 1\<rparr>)
   \<and> isComplete \<lparr>string = ''x'', offset = 1\<rparr>
   \<and> parse (str ''x'' (Some (\<lambda>v. Return JNull))) ''x'' = Return JNull
   \<and> str ''x'' (Some (\<lambda>v. Return JNull)) \<lparr>string = ''y'', offset = 0\<rparr> = Return (Falsy Null)
   \<and> parse (str ''x'' (Some (\<lambda>v. Return JNull))) ''y'' = Return JNull"
  by (simp add: run_defs)

section \<open>Repetition\<close>

lemma rep_while_greedy_run:
  "greedy_run p c vs c' \<Longrightarrow> rep_while p ms c = Return (ms @ vs, c')"
proof (induction arbitrary: ms rule: greedy_run.induct)
  case (run_ends p c x)
  then show ?case by (subst rep_while.simps) simp
next
  case (run_goes_on p c v c1 vs c')
  show ?case
    by (subst rep_while.simps) (simp add: run_goes_on.hyps(1) run_goes_on.IH)
qed

text \<open>
  The greedy run from a cursor is unique when there is one, and there is one whenever
  the loop of \<open>rep\<close> returns: the run is what the loop computes.
\<close>

lemma greedy_run_unique:
  "greedy_run p c vs c' \<Longrightarrow> greedy_run p c ws d \<Longrightarrow> ws = vs \<and> d = c'"
proof (induction arbitrary: ws d rule: greedy_run.induct)
  case (run_ends p c x)
  from run_ends.prems run_ends.hyps show ?case
    by (cases rule: greedy_run.cases) simp_all
next
  case (run_goes_on p c v c1 vs c')
  from run_goes_on.prems run_goes_on.hyps(1) obtain ws' where ws: "ws = v # ws'"
    and rest: "greedy_run p c1 ws' d"
    by (cases rule: greedy_run.cases) simp_all
  from run_goes_on.IH [OF rest] ws show ?case by simp
qed

lemma rep_while_returns_run:
  assumes "rep_while p ms c = Some y"
  shows "\<forall>ms' c'. y = Inr (ms', c') \<longrightarrow> (\<exists>vs. greedy_run p c vs c' \<and> ms' = ms @ vs)"
proof (rule rep_while.raw_induct
        [where P = "\<lambda>p ms c y. \<forall>ms' c'. y = Inr (ms', c') \<longrightarrow> (\<exists>vs. greedy_run p c vs c' \<and> ms' = ms @ vs)",
         OF _ assms])
  fix rw p ms c y
  assume IH: "\<And>p ms c y. rw p ms c = Some y \<Longrightarrow>
                \<forall>ms' c'. y = Inr (ms', c') \<longrightarrow> (\<exists>vs. greedy_run p c vs c' \<and> ms' = ms @ vs)"
    and step: "(case p c of None \<Rightarrow> None | Some (Inl e) \<Rightarrow> Throw e
                | Some (Inr (Match v st)) \<Rightarrow> rw p (ms @ [v]) st
                | Some (Inr (Falsy x)) \<Rightarrow> Return (ms, c)) = Some y"
  show "\<forall>ms' c'. y = Inr (ms', c') \<longrightarrow> (\<exists>vs. greedy_run p c vs c' \<and> ms' = ms @ vs)"
  proof (intro allI impI)
    fix ms' c'
    assume y: "y = Inr (ms', c')"
    from step obtain r where r: "p c = Some r" by (cases "p c") simp_all
    show "\<exists>vs. greedy_run p c vs c' \<and> ms' = ms @ vs"
    proof (cases r)
      case (Inl e)
      with step r y show ?thesis by simp
    next
      case (Inr m)
      show ?thesis
      proof (cases m)
        case (Falsy x)
        with step r Inr y have "ms' = ms" and "c' = c" by simp_all
        moreover from r Inr Falsy have "greedy_run p c [] c" by (simp add: run_ends)
        ultimately show ?thesis by auto
      next
        case (Match v st)
        with step r Inr have "rw p (ms @ [v]) st = Some y" by simp
        from IH [OF this] y obtain vs where run: "greedy_run p st vs c'" and ms': "ms' = (ms @ [v]) @ vs"
          by blast
        from r Inr Match have "p c = Return (Match v st)" by simp
        from run_goes_on [OF this run] ms' show ?thesis by auto
      qed
    qed
  qed
qed

lemma rep_returns_run:
  assumes "rep p n f c = Return m"
  shows "\<exists>vs c'. greedy_run p c vs c'"
proof -
  from assms obtain ms c' where "rep_while p [] c = Return (ms, c')"
    by (auto simp: rep_def split: option.splits sum.splits)
  from rep_while_returns_run [OF this] show ?thesis by blast
qed

text \<open>
  Claim C2. When the applications of \<open>p\<close> from \<open>c\<close> come to a failing attempt after
  finitely many matches (the greedy run \<open>vs\<close>, ending at \<open>c'\<close>), \<open>rep (p, n)\<close> matches at
  \<open>c\<close> exactly when the run has at least \<open>n\<close> matches; its list is then the values of
  the run in order, and its cursor is \<open>c'\<close>, the one the last match returned (\<open>c\<close> itself
  when the run is empty) and at which the failing attempt was made. With a formatter
  \<open>f\<close>, the value is what the call of \<open>f\<close> on this default value gives.
\<close>

theorem rep_greedy_run:
  assumes "greedy_run p c vs c'"
  shows "rep p n None c =
           (if n \<le> length vs
            then Return (Match (JObject [(''rep'', JArray vs)]) c')
            else Return (Falsy Null))
         \<and> rep p n f c =
           (if n \<le> length vs
            then match_array (or_id f (JObject [(''rep'', JArray vs)])) c'
            else Return (Falsy Null))"
  using rep_while_greedy_run [OF assms, of "[]"] by (simp add: rep_def)

theorem rep_greedy_run_witness:
  "greedy_run (str ''ab'' None) \<lparr>string = ''ababa'', offset = 0\<rparr>
     [JObject [(''str'', JString ''ab'')], JObject [(''str'', JString ''ab'')]]
     \<lparr>string = ''ababa'', offset = 4\<rparr>
   \<and> rep (str ''ab'' None) 2 None \<lparr>string = ''ababa'', offset = 0\<rparr>
     = Return (Match (JObject [(''rep'', JArray [JObject [(''str'', JString ''ab'')],
                                                 JObject [(''str'', JString ''ab'')]])])
                     \<lparr>string = ''ababa'', offset = 4\<rparr>)
   \<and> rep (str ''ab'' None) 3 None \<lparr>string = ''ababa'', offset = 0\<rparr> = Return (Falsy Null)
   \<and> greedy_run (str ''ab'' None) \<lparr>string = ''ba'', offset = 0\<rparr> [] \<lparr>string = ''ba'', offset = 0\<rparr>
   \<and> rep (str ''ab'' None) 0 None \<lparr>string = ''ba'', offset = 0\<rparr>
     = Return (Match (JObject [(''rep'', JArray [])]) \<lparr>string = ''ba'', offset = 0\<rparr>)"
proof -
  have s0: "str ''ab'' None \<lparr>string = ''ababa'', offset = 0\<rparr>
      = Return (Match (JObject [(''str'', JString ''ab'')]) \<lparr>string = ''ababa'', offset = 2\<rparr>)"
    by (simp add: run_defs)
  have s2: "str ''ab'' None \<lparr>string = ''ababa'', offset = 2\<rparr>
      = Return (Match (JObject [(''str'', JString ''ab'')]) \<lparr>string = ''ababa'', offset = 4\<rparr>)"
    by (simp add: run_defs)
  have s4: "str ''ab'' None \<lparr>string = ''ababa'', offset = 4\<rparr> = Return (Falsy Null)"
    by (simp add: run_defs)
  have run: "greedy_run (str ''ab'' None) \<lparr>string = ''ababa'', offset = 0\<rparr>
     [JObject [(''str'', JString ''ab'')], JObject [(''str'', JString ''ab'')]]
     \<lparr>string = ''ababa'', offset = 4\<rparr>"
    by (rule run_goes_on [where p = "str ''ab'' None" and c = "\<lparr>string = ''ababa'', offset = 0\<rparr>", OF s0],
        rule run_goes_on [where p = "str ''ab'' None" and c = "\<lparr>string = ''ababa'', offset = 2\<rparr>", OF s2],
        rule run_ends [where p = "str ''ab'' None" and c = "\<lparr>string = ''ababa'', offset = 4\<rparr>", OF s4])
  have b0: "str ''ab'' None \<lparr>string = ''ba'', offset = 0\<rparr> = Return (Falsy Null)"
    by (simp add: run_defs)
  have empty: "greedy_run (str ''ab'' None) \<lparr>string = ''ba'', offset = 0\<rparr> [] \<lparr>string = ''ba'', offset = 0\<rparr>"
    by (rule run_ends [where p = "str ''ab'' None" and c = "\<lparr>string = ''ba'', offset = 0\<rparr>", OF b0])
  show ?thesis
    using run empty
      rep_greedy_run [OF run, of 2 None] rep_greedy_run [OF run, of 3 None]
      rep_greedy_run [OF empty, of 0 None]
    by simp
qed

text \<open>
  With an array that could grow without bound, the loop returns when the matches of
  \<open>p\<close> stay inside the string they started in, each strictly ahead of the one before.
\<close>

lemma rep_while_returns:
  assumes ret: "\<And>st. p st \<noteq> None"
    and prog: "\<And>st v st'. p st = Return (Match v st') \<Longrightarrow>
                 offset st < offset st' \<and> string st' = string st \<and> offset st' \<le> length (string st')"
  shows "rep_while p ms c \<noteq> None"
proof (induction "length (string c) - offset c" arbitrary: c ms rule: less_induct)
  case less
  show ?case
  proof (cases "p c")
    case None
    with ret [of c] show ?thesis by blast
  next
    case (Some r)
    show ?thesis
    proof (cases r)
      case (Inl e)
      with Some show ?thesis by (subst rep_while.simps) simp
    next
      case (Inr parsed)
      show ?thesis
      proof (cases parsed)
        case (Falsy x)
        with Some Inr show ?thesis by (subst rep_while.simps) simp
      next
        case (Match v st')
        have pc: "p c = Return (Match v st')"
          using \<open>p c = Some r\<close> Inr Match by simp
        from prog [OF pc] have a: "offset c < offset st'" and b: "string st' = string c"
          and d: "offset st' \<le> length (string st')" by blast+
        have "length (string st') - offset st' < length (string c) - offset c"
          unfolding b using a d [unfolded b] by arith
        then have "rep_while p (ms @ [v]) st' \<noteq> None" by (rule less)
        then show ?thesis by (subst rep_while.simps) (simp add: pc)
      qed
    qed
  qed
qed

text \<open>
  On an array of an engine the loop always comes to an end when the calls of \<open>p\<close> do:
  it returns, or passes on what \<open>p\<close> threw, or ends in the \<open>RangeError\<close> of the push
  that finds the array full.
\<close>

declare rep_while_capped.simps [simp del]


text \<open>
  Where the loop on an engine's array returns, the loop on the unbounded array returns
  the same; and a greedy run that fits into the array is computed by both.
\<close>

lemma rep_while_capped_agrees:
  "rep_while_capped capacity p ms c = Return y \<Longrightarrow> rep_while p ms c = Return y"
proof (induction capacity p ms c rule: rep_while_capped.induct)
  case (1 capacity parser ms parseState)
  from "1.prems" obtain r where r: "parser parseState = Some r"
    by (subst (asm) rep_while_capped.simps) (auto split: option.splits)
  show ?case
  proof (cases r)
    case (Inl e)
    with r "1.prems" show ?thesis by (subst (asm) rep_while_capped.simps) simp
  next
    case (Inr parsed)
    show ?thesis
    proof (cases parsed)
      case (Falsy x)
      with r Inr "1.prems" have "y = (ms, parseState)"
        by (subst (asm) rep_while_capped.simps) simp
      with r Inr Falsy show ?thesis by (subst rep_while.simps) simp
    next
      case (Match v st)
      show ?thesis
      proof (cases "length ms < capacity")
        case True
        with r Inr Match "1.prems" have "rep_while_capped capacity parser (ms @ [v]) st = Return y"
          by (subst (asm) rep_while_capped.simps) simp
        from "1.IH" [OF r Inr Match True this] r Inr Match show ?thesis
          by (subst rep_while.simps) simp
      next
        case False
        with r Inr Match "1.prems" show ?thesis
          by (subst (asm) rep_while_capped.simps) simp
      qed
    qed
  qed
qed

lemma rep_while_capped_greedy_run:
  "greedy_run p c vs c' \<Longrightarrow> length ms + length vs \<le> capacity \<Longrightarrow>
     rep_while_capped capacity p ms c = Return (ms @ vs, c')"
proof (induction arbitrary: ms rule: greedy_run.induct)
  case (run_ends p c x)
  then show ?case by (subst rep_while_capped.simps) simp
next
  case (run_goes_on p c v c1 vs c')
  from run_goes_on.prems have room: "length ms < capacity"
    and rest: "length (ms @ [v]) + length vs \<le> capacity" by simp_all
  from run_goes_on.IH [OF rest] run_goes_on.hyps(1) room show ?case
    by (subst rep_while_capped.simps) simp
qed

text \<open>
  The hand-written parser \<open>skip_one\<close> matches on every call, each time one position
  further: \<open>rep\<close> of it fills the array and ends in the \<open>RangeError\<close> of the next push.
\<close>

lemma rep_while_capped_skip_one:
  "p = skip_one \<Longrightarrow> rep_while_capped capacity p ms c = Throw RangeError"
proof (induction capacity p ms c rule: rep_while_capped.induct)
  case (1 capacity parser ms parseState)
  have r: "parser parseState = Return (Match JNull (read parseState 1))"
    using "1.prems" by (simp add: skip_one_def)
  show ?case
  proof (cases "length ms < capacity")
    case True
    from "1.IH" [OF r refl refl True "1.prems"] r True show ?thesis
      by (subst rep_while_capped.simps) simp
  next
    case False
    with r show ?thesis by (subst rep_while_capped.simps) simp
  qed
qed

lemma rep_capped_skip_one: "rep_capped capacity skip_one n f c = Throw RangeError"
  by (simp add: rep_capped_def rep_while_capped_skip_one)



section \<open>Optional and alternation\<close>

text \<open>
  Claim C4. \<open>opt (p)\<close> never fails. When \<open>p\<close> matches at \<open>c\<close> with value \<open>v\<close> and cursor
  \<open>c'\<close>, it returns \<open>{ opt: v }\<close> with \<open>c'\<close>; when \<open>p\<close> fails (returns \<open>null\<close> or another
  falsy value), it returns \<open>{ opt: null }\<close> with the cursor \<open>c\<close> it was given; with a
  formatter \<open>f\<close> the value is what the call of \<open>f\<close> on this default value gives. And
  whatever \<open>p\<close> and \<open>f\<close> do, \<open>opt (p, f)\<close> does not return a falsy value.
\<close>

theorem opt_never_fails:
  "(p c = Return (Match v c') \<longrightarrow>
      opt p None c = Return (Match (JObject [(''opt'', v)]) c')
      \<and> opt p f c = match_array (or_id f (JObject [(''opt'', v)])) c')
   \<and> (p c = Return (Falsy x) \<longrightarrow>
      opt p None c = Return (Match (JObject [(''opt'', JNull)]) c)
      \<and> opt p f c = match_array (or_id f (JObject [(''opt'', JNull)])) c)
   \<and> opt p f c \<noteq> Return (Falsy y)"
proof -
  have "opt p f c \<noteq> Return (Falsy y)"
    by (simp add: opt_def split: option.splits sum.splits returned.splits)
  then show ?thesis
    by (simp add: opt_def)
qed

theorem opt_never_fails_witness:
  "str ''+'' None \<lparr>string = ''+'', offset = 0\<rparr>
     = Return (Match (JObject [(''str'', JString ''+'')]) \<lparr>string = ''+'', offset = 1\<rparr>)
   \<and> opt (str ''+'' None) None \<lparr>string = ''+'', offset = 0\<rparr>
     = Return (Match (JObject [(''opt'', JObject [(''str'', JString ''+'')])]) \<lparr>string = ''+'', offset = 1\<rparr>)
   \<and> str ''+'' None \<lparr>string = ''asdf'', offset = 0\<rparr> = Return (Falsy Null)
   \<and> opt (str ''+'' None) None \<lparr>string = ''asdf'', offset = 0\<rparr>
     = Return (Match (JObject [(''opt'', JNull)]) \<lparr>string = ''asdf'', offset = 0\<rparr>)"
proof -
  have hit: "str ''+'' None \<lparr>string = ''+'', offset = 0\<rparr>
     = Return (Match (JObject [(''str'', JString ''+'')]) \<lparr>string = ''+'', offset = 1\<rparr>)"
    by (simp add: run_defs)
  have miss: "str ''+'' None \<lparr>string = ''asdf'', offset = 0\<rparr> = Return (Falsy Null)"
    by (simp add: run_defs)
  show ?thesis
    using hit miss
      opt_never_fails [where p = "str ''+'' None" and c = "\<lparr>string = ''+'', offset = 0\<rparr>"
        and v = "JObject [(''str'', JString ''+'')]" and c' = "\<lparr>string = ''+'', offset = 1\<rparr>"
        and f = None]
      opt_never_fails [where p = "str ''+'' None" and c = "\<lparr>string = ''asdf'', offset = 0\<rparr>"
        and x = Null and f = None]
    by simp
qed

lemma alt_for_skips_failures:
  "\<forall>q \<in> set qs. \<exists>x. q c = Return (Falsy x) \<Longrightarrow> alt_for (qs @ rest) g c = alt_for rest g c"
  by (induction qs) auto

text \<open>
  Claim C5. \<open>alt\<close> applies its parsers in list order, each to the cursor \<open>c\<close> it was
  given. When the parsers \<open>qs\<close> before \<open>p\<close> all fail at \<open>c\<close> and \<open>p\<close> matches at \<open>c\<close>, the
  result is \<open>{ alt: v }\<close> with the value and the cursor of \<open>p\<close> (with a formatter \<open>f\<close>,
  what the call of \<open>f\<close> on this default value gives), whatever the parsers after \<open>p\<close>
  would do; so when the first two both match, the first one's result is returned (\<open>qs\<close>
  empty). When all parsers fail, \<open>alt\<close> returns \<open>null\<close>.
\<close>

theorem alt_first_match_wins:
  assumes "\<forall>q \<in> set qs. \<exists>x. q c = Return (Falsy x)"
  shows "(p c = Return (Match v c') \<longrightarrow>
            alt (qs @ p # rest) None c = Return (Match (JObject [(''alt'', v)]) c')
            \<and> alt (qs @ p # rest) f c = match_array (or_id f (JObject [(''alt'', v)])) c')
         \<and> alt qs f c = Return (Falsy Null)"
  using alt_for_skips_failures [OF assms, of "p # rest" "or_id f"]
        alt_for_skips_failures [OF assms, of "p # rest" "or_id None"]
        alt_for_skips_failures [OF assms, of "[]" "or_id f"]
  by (auto simp: alt_def)

theorem alt_first_match_wins_witness:
  "str ''a'' None \<lparr>string = ''ab'', offset = 0\<rparr>
     = Return (Match (JObject [(''str'', JString ''a'')]) \<lparr>string = ''ab'', offset = 1\<rparr>)
   \<and> str ''ab'' None \<lparr>string = ''ab'', offset = 0\<rparr>
     = Return (Match (JObject [(''str'', JString ''ab'')]) \<lparr>string = ''ab'', offset = 2\<rparr>)
   \<and> alt [str ''a'' None, str ''ab'' None] None \<lparr>string = ''ab'', offset = 0\<rparr>
     = Return (Match (JObject [(''alt'', JObject [(''str'', JString ''a'')])]) \<lparr>string = ''ab'', offset = 1\<rparr>)
   \<and> alt [str ''red'' None, str ''blue'' None] None \<lparr>string = ''blue'', offset = 0\<rparr>
     = Return (Match (JObject [(''alt'', JObject [(''str'', JString ''blue'')])]) \<lparr>string = ''blue'', offset = 4\<rparr>)
   \<and> alt [str ''red'' None, str ''blue'' None] None \<lparr>string = ''green'', offset = 0\<rparr>
     = Return (Falsy Null)"
proof -
  have a: "str ''a'' None \<lparr>string = ''ab'', offset = 0\<rparr>
     = Return (Match (JObject [(''str'', JString ''a'')]) \<lparr>string = ''ab'', offset = 1\<rparr>)"
    by (simp add: run_defs)
  have ab: "str ''ab'' None \<lparr>string = ''ab'', offset = 0\<rparr>
     = Return (Match (JObject [(''str'', JString ''ab'')]) \<lparr>string = ''ab'', offset = 2\<rparr>)"
    by (simp add: run_defs)
  have none: "\<forall>q \<in> set []. \<exists>x. q \<lparr>string = ''ab'', offset = 0\<rparr> = Return (Falsy x)"
    by simp
  have red: "\<forall>q \<in> set [str ''red'' None]. \<exists>x. q \<lparr>string = ''blue'', offset = 0\<rparr> = Return (Falsy x)"
    by (simp add: run_defs)
  have blue: "str ''blue'' None \<lparr>string = ''blue'', offset = 0\<rparr>
     = Return (Match (JObject [(''str'', JString ''blue'')]) \<lparr>string = ''blue'', offset = 4\<rparr>)"
    by (simp add: run_defs)
  have green: "\<forall>q \<in> set [str ''red'' None, str ''blue'' None].
                 \<exists>x. q \<lparr>string = ''green'', offset = 0\<rparr> = Return (Falsy x)"
    by (simp add: run_defs)
  show ?thesis
    using a ab blue
      alt_first_match_wins [OF none, where p = "str ''a'' None" and rest = "[str ''ab'' None]"
        and v = "JObject [(''str'', JString ''a'')]" and c' = "\<lparr>string = ''ab'', offset = 1\<rparr>" and f = None]
      alt_first_match_wins [OF red, where p = "str ''blue'' None" and rest = "[]"
        and v = "JObject [(''str'', JString ''blue'')]" and c' = "\<lparr>string = ''blue'', offset = 4\<rparr>" and f = None]
      alt_first_match_wins [OF green, where p = "str ''x'' None" and rest = "[]" and f = None]
    by simp
qed

section \<open>References\<close>

lemma own_property: "own object name = Some q \<Longrightarrow> property object name = Some q"
  by (simp add: property_def)

lemma ref_calls_property: "property (heap ctx) name = Some q \<Longrightarrow> ref ctx name heap c = q c"
  by (simp add: ref_def)

text \<open>
  Claim C8. When the registry \<open>ctx\<close> binds \<open>name\<close> to the parser \<open>q\<close> in the store of the
  moment the parser returned by \<open>ref (ctx, name)\<close> is called, the call returns what
  \<open>q\<close> returns on the same cursor, with nothing added. The closure \<open>ref ctx name\<close> does
  not depend on any store: what the registry held when \<open>ref\<close> was called plays no part.
\<close>

theorem ref_dispatches_at_call_time:
  "own (heap ctx) name = Some q \<Longrightarrow> ref ctx name heap c = q c"
  by (simp add: ref_def property_def)

text \<open>
  The test of the source, with the binding made after \<open>ref\<close>: under the store with the
  empty registry the reference throws; after \<open>ctx.number = str('4')\<close> the same closure
  matches.
\<close>

theorem ref_dispatches_at_call_time_witness:
  "ref 0 ''number'' empty_store \<lparr>string = ''4'', offset = 0\<rparr> = Throw TypeError
   \<and> own (number_store 0) ''number'' = Some (str ''4'' None)
   \<and> ref 0 ''number'' number_store \<lparr>string = ''4'', offset = 0\<rparr>
     = Return (Match (JObject [(''str'', JString ''4'')]) \<lparr>string = ''4'', offset = 1\<rparr>)"
proof -
  have bound: "own (number_store 0) ''number'' = Some (str ''4'' None)"
    by (simp add: number_store_def object_literal_def)
  have before: "ref 0 ''number'' empty_store \<lparr>string = ''4'', offset = 0\<rparr> = Throw TypeError"
    by (simp add: ref_def property_def empty_store_def object_literal_def inherited_predicates_def)
  show ?thesis
    using bound before
      ref_dispatches_at_call_time
        [where heap = number_store and ctx = 0 and name = "''number''"
           and c = "\<lparr>string = ''4'', offset = 0\<rparr>", OF bound]
    by (simp add: run_defs)
qed

text \<open>
  Claim C9, as stated: when \<open>name\<close> is unbound in \<open>ctx\<close> at the moment of the call, the
  call throws and never gives the value of an ordinary mismatch. This is false for a
  name that the registry does not bind but its prototype chain provides. The registry
  \<open>{}\<close> binds nothing, and \<open>ctx['hasOwnProperty']\<close> is the function inherited from
  \<open>Object.prototype\<close>: the call returns \<open>false\<close> without throwing, every combinator
  takes that for a failed match, and \<open>parse\<close> returns \<open>null\<close>, as it does for a parser
  that does not match.
\<close>

theorem ref_inherited_name_does_not_throw:
  "own (empty_store 0) ''hasOwnProperty'' = None
   \<and> ref 0 ''hasOwnProperty'' empty_store \<lparr>string = ''x'', offset = 0\<rparr> = Return (Falsy Boolean_false)
   \<and> ref 0 ''hasOwnProperty'' empty_store \<lparr>string = ''x'', offset = 0\<rparr> \<noteq> Throw TypeError
   \<and> parse (ref 0 ''hasOwnProperty'' empty_store) ''x'' = Return JNull
   \<and> parse (str ''y'' None) ''x'' = Return JNull"
  by (simp add: run_defs empty_store_def object_literal_def inherited_predicates_def)

text \<open>
  Claim C9, amended: when \<open>ctx[name]\<close> is \<open>undefined\<close> at the moment of the call (the name
  is neither bound in \<open>ctx\<close> nor provided by its prototype chain), the call throws a
  \<open>TypeError\<close>; it does not return \<open>null\<close> or another falsy value, the outcome of an
  ordinary mismatch.
\<close>

theorem ref_undefined_throws:
  "property (heap ctx) name = None \<Longrightarrow>
     ref ctx name heap c = Throw TypeError \<and> ref ctx name heap c \<noteq> Return (Falsy x)"
  by (simp add: ref_def)

theorem ref_undefined_throws_witness:
  "property (number_store 0) ''digit'' = None
   \<and> ref 0 ''digit'' number_store \<lparr>string = ''4'', offset = 0\<rparr> = Throw TypeError
   \<and> ref 0 ''digit'' number_store \<lparr>string = ''4'', offset = 0\<rparr> \<noteq> Return (Falsy Null)"
proof -
  have undefined: "property (number_store 0) ''digit'' = None"
    by (simp add: property_def number_store_def object_literal_def inherited_predicates_def)
  show ?thesis
    using undefined
      ref_undefined_throws
        [where heap = number_store and ctx = 0 and name = "''digit''"
           and c = "\<lparr>string = ''4'', offset = 0\<rparr>" and x = Null, OF undefined]
    by simp
qed

section \<open>Formatters\<close>

lemma alt_for_formatter: "alt_for ps g c = with_formatter g (alt_for ps (or_id None) c)"
  by (induction ps) (auto simp: with_formatter_def split: option.splits sum.splits returned.splits)

text \<open>
  For each of the six combinators, the parser built with a formatter \<open>g\<close> does what the
  parser built without one does, and then calls \<open>g\<close> on the value of a match.
\<close>

lemma formatter_called_on_match:
  "str s (Some g) c = with_formatter g (str s None c)"
  "char RegExp chars (Some g) c = with_formatter g (char RegExp chars None c)"
  "seq ps (Some g) c = with_formatter g (seq ps None c)"
  "rep p n (Some g) c = with_formatter g (rep p n None c)"
  "opt p (Some g) c = with_formatter g (opt p None c)"
  "alt ps (Some g) c = with_formatter g (alt ps None c)"
proof -
  show "str s (Some g) c = with_formatter g (str s None c)"
    by (simp add: str_def with_formatter_def Let_def or_id_def [of "Some g"])
  show "char RegExp chars (Some g) c = with_formatter g (char RegExp chars None c)"
    by (simp add: char_def with_formatter_def Let_def or_id_def [of "Some g"] split: sum.splits)
  show "seq ps (Some g) c = with_formatter g (seq ps None c)"
    by (simp add: seq_def with_formatter_def or_id_def [of "Some g"] split: option.splits sum.splits)
  show "rep p n (Some g) c = with_formatter g (rep p n None c)"
    by (simp add: rep_def with_formatter_def or_id_def [of "Some g"] split: option.splits sum.splits)
  show "opt p (Some g) c = with_formatter g (opt p None c)"
    by (simp add: opt_def with_formatter_def or_id_def [of "Some g"]
             split: option.splits sum.splits returned.splits)
  show "alt ps (Some g) c = with_formatter g (alt ps None c)"
    using alt_for_formatter [of ps g c] by (simp add: alt_def or_id_def [of "Some g"])
qed

lemma with_formatter_only_value_differs:
  "returns_on g r \<Longrightarrow> only_value_differs g r (with_formatter g r)"
  by (auto simp: returns_on_def only_value_differs_def with_formatter_def match_array_def
           split: option.splits sum.splits returned.splits)

text \<open>
  Claim C7, as stated: for every formatter \<open>f\<close>, the parser built with \<open>f\<close> succeeds at
  \<open>c\<close> exactly when the parser built without one does. This is false for a formatter
  that throws. The formatter of the test suite's \<open>opt\<close> case throws on \<open>{ opt: null }\<close>:
  on the empty input \<open>opt (str ('+'))\<close> matches, and \<open>opt (str ('+'), format)\<close> throws.
\<close>

theorem throwing_formatter_changes_success:
  "opt (str ''+'' None) None \<lparr>string = [], offset = 0\<rparr>
     = Return (Match (JObject [(''opt'', JNull)]) \<lparr>string = [], offset = 0\<rparr>)
   \<and> test_opt_format (JObject [(''opt'', JNull)]) = Throw TypeError
   \<and> opt (str ''+'' None) (Some test_opt_format) \<lparr>string = [], offset = 0\<rparr> = Throw TypeError"
  by (simp add: run_defs test_opt_format_def dot_def)

text \<open>
  Claim C7, amended: for each of \<open>str\<close>, \<open>char\<close>, \<open>seq\<close>, \<open>rep\<close>, \<open>opt\<close> and \<open>alt\<close>, every
  formatter \<open>g\<close> and every cursor \<open>c\<close>: if the call of \<open>g\<close> on the default tagged value
  returns whenever the parser built without a formatter matches at \<open>c\<close>, then the parser
  built with \<open>g\<close> matches at \<open>c\<close> exactly when the one built without does, both return the
  same cursor, and the value is what \<open>g\<close> returns on the default tagged value; where
  there is no match the two parsers do the same.
\<close>

theorem formatter_transparent:
  "(returns_on g (str s None c) \<longrightarrow> only_value_differs g (str s None c) (str s (Some g) c))
   \<and> (returns_on g (char RegExp chars None c) \<longrightarrow>
        only_value_differs g (char RegExp chars None c) (char RegExp chars (Some g) c))
   \<and> (returns_on g (seq ps None c) \<longrightarrow> only_value_differs g (seq ps None c) (seq ps (Some g) c))
   \<and> (returns_on g (rep p n None c) \<longrightarrow> only_value_differs g (rep p n None c) (rep p n (Some g) c))
   \<and> (returns_on g (opt p None c) \<longrightarrow> only_value_differs g (opt p None c) (opt p (Some g) c))
   \<and> (returns_on g (alt ps None c) \<longrightarrow> only_value_differs g (alt ps None c) (alt ps (Some g) c))"
  by (simp add: formatter_called_on_match with_formatter_only_value_differs)

text \<open>
  The formatter of the test suite's \<open>opt\<close> case where it returns, on the input \<open>'+'\<close>; and
  \<open>str\<close> with it on an input that \<open>str\<close> does not match.
\<close>

theorem formatter_transparent_witness:
  "opt (str ''+'' None) None \<lparr>string = ''+'', offset = 0\<rparr>
     = Return (Match (JObject [(''opt'', JObject [(''str'', JString ''+'')])]) \<lparr>string = ''+'', offset = 1\<rparr>)
   \<and> test_opt_format (JObject [(''opt'', JObject [(''str'', JString ''+'')])]) = Return (JString ''+'')
   \<and> opt (str ''+'' None) (Some test_opt_format) \<lparr>string = ''+'', offset = 0\<rparr>
     = Return (Match (JString ''+'') \<lparr>string = ''+'', offset = 1\<rparr>)
   \<and> str ''+'' None \<lparr>string = ''asdf'', offset = 0\<rparr> = Return (Falsy Null)
   \<and> str ''+'' (Some test_opt_format) \<lparr>string = ''asdf'', offset = 0\<rparr> = Return (Falsy Null)"
proof -
  have plain: "opt (str ''+'' None) None \<lparr>string = ''+'', offset = 0\<rparr>
     = Return (Match (JObject [(''opt'', JObject [(''str'', JString ''+'')])]) \<lparr>string = ''+'', offset = 1\<rparr>)"
    by (simp add: run_defs)
  have returns: "test_opt_format (JObject [(''opt'', JObject [(''str'', JString ''+'')])]) = Return (JString ''+'')"
    by (simp add: test_opt_format_def dot_def)
  have miss: "str ''+'' None \<lparr>string = ''asdf'', offset = 0\<rparr> = Return (Falsy Null)"
    by (simp add: run_defs)
  show ?thesis
    using plain returns miss
      formatter_transparent [where g = test_opt_format and p = "str ''+'' None"
        and s = "''+''" and c = "\<lparr>string = ''+'', offset = 0\<rparr>"]
      formatter_transparent [where g = test_opt_format and p = "str ''+'' None"
        and s = "''+''" and c = "\<lparr>string = ''asdf'', offset = 0\<rparr>"]
    by (simp add: returns_on_def only_value_differs_def)
qed

section \<open>Depth of nested references\<close>

text \<open>
  The parsers \<open>parser_of k\<close> agree as \<open>k\<close> grows: an outcome reached within depth \<open>k\<close>
  is the outcome at every greater depth. So the outcome of a call of a built parser is
  well defined: it is the one that \<open>parser_of k\<close> has for all large enough \<open>k\<close>, and
  the call does not return when there is none.
\<close>

lemma settled_in_refl: "settled_in p p"
  by (simp add: settled_in_def)

lemma settled_inD: "settled_in p q \<Longrightarrow> p c = Some r \<Longrightarrow> q c = Some r"
  unfolding settled_in_def by blast

lemma seq_step_settled:
  assumes "settled_in p q" and "seq_step r p = Some x"
  shows "seq_step r q = Some x"
proof (cases "\<exists>acc. r = Return acc \<and> success acc")
  case True
  then obtain acc where r: "r = Return acc" and s: "success acc" by blast
  from assms(2) r s obtain z where z: "p (state acc) = Some z"
    by (cases "p (state acc)") (simp_all add: seq_step_def)
  from settled_inD [OF assms(1) z] z assms(2) r s show ?thesis
    by (simp add: seq_step_def)
next
  case False
  then have "seq_step r q = seq_step r p"
    by (auto simp: seq_step_def split: option.splits sum.splits)
  with assms(2) show ?thesis by simp
qed

lemma foldl_seq_step_None: "foldl seq_step None ps = None"
  by (induction ps) (simp_all add: seq_step_def)

lemma seq_fold_settled:
  assumes "list_all2 settled_in ps qs"
  shows "foldl seq_step r ps = Some x \<Longrightarrow> foldl seq_step r qs = Some x"
  using assms
proof (induction arbitrary: r rule: list_all2_induct)
  case Nil
  then show ?case by simp
next
  case (Cons p ps q qs)
  from Cons.prems have run: "foldl seq_step (seq_step r p) ps = Some x" by simp
  then obtain y where y: "seq_step r p = Some y"
    by (cases "seq_step r p") (simp_all add: foldl_seq_step_None)
  from seq_step_settled [OF Cons.hyps(1) y] have "seq_step r q = Some y" .
  with y run Cons.IH [of "seq_step r p"] show ?case by simp
qed

lemma settled_in_seq:
  assumes "list_all2 settled_in ps qs"
  shows "settled_in (seq ps f) (seq qs f)"
  unfolding settled_in_def
proof (intro allI impI)
  fix c r
  assume a: "seq ps f c = Some r"
  then obtain x where x: "foldl seq_step (Return \<lparr>success = True, state = c, matches = []\<rparr>) ps = Some x"
    by (auto simp: seq_def split: option.splits)
  from seq_fold_settled [OF assms x] x a show "seq qs f c = Some r"
    by (simp add: seq_def)
qed

lemma rep_while_settled:
  assumes "rep_while p ms c = Some y"
  shows "\<forall>q. settled_in p q \<longrightarrow> rep_while q ms c = Some y"
proof (rule rep_while.raw_induct
        [where P = "\<lambda>p ms c y. \<forall>q. settled_in p q \<longrightarrow> rep_while q ms c = Some y", OF _ assms])
  fix rw p ms c y
  assume IH: "\<And>p ms c y. rw p ms c = Some y \<Longrightarrow> \<forall>q. settled_in p q \<longrightarrow> rep_while q ms c = Some y"
    and step: "(case p c of None \<Rightarrow> None | Some (Inl e) \<Rightarrow> Throw e
                | Some (Inr (Match v st)) \<Rightarrow> rw p (ms @ [v]) st
                | Some (Inr (Falsy x)) \<Rightarrow> Return (ms, c)) = Some y"
  show "\<forall>q. settled_in p q \<longrightarrow> rep_while q ms c = Some y"
  proof (intro allI impI)
    fix q
    assume pq: "settled_in p q"
    from step obtain r where r: "p c = Some r" by (cases "p c") simp_all
    from settled_inD [OF pq r] have qc: "q c = Some r" .
    show "rep_while q ms c = Some y"
    proof (cases r)
      case (Inl e)
      with step r have "y = Inl e" by simp
      with Inl qc show ?thesis by (subst rep_while.simps) simp
    next
      case (Inr m)
      show ?thesis
      proof (cases m)
        case (Falsy x)
        with step r Inr have "y = Inr (ms, c)" by simp
        with Falsy Inr qc show ?thesis by (subst rep_while.simps) simp
      next
        case (Match v st)
        with step r Inr have "rw p (ms @ [v]) st = Some y" by simp
        from IH [OF this] pq have "rep_while q (ms @ [v]) st = Some y" by blast
        with Match Inr qc show ?thesis by (subst rep_while.simps) simp
      qed
    qed
  qed
qed

lemma settled_in_rep:
  assumes "settled_in p q"
  shows "settled_in (rep p n f) (rep q n f)"
  unfolding settled_in_def
proof (intro allI impI)
  fix c r
  assume a: "rep p n f c = Some r"
  then obtain y where y: "rep_while p [] c = Some y"
    by (auto simp: rep_def split: option.splits)
  from rep_while_settled [OF y] assms have "rep_while q [] c = Some y" by blast
  with y a show "rep q n f c = Some r" by (simp add: rep_def)
qed

lemma settled_in_opt:
  assumes "settled_in p q"
  shows "settled_in (opt p f) (opt q f)"
  unfolding settled_in_def [of "opt p f"]
proof (intro allI impI)
  fix c r
  assume a: "opt p f c = Some r"
  then obtain z where z: "p c = Some z"
    by (cases "p c") (simp_all add: opt_def)
  from settled_inD [OF assms z] z a show "opt q f c = Some r"
    by (simp add: opt_def)
qed

lemma alt_for_settled:
  assumes "list_all2 settled_in ps qs"
  shows "alt_for ps g c = Some r \<Longrightarrow> alt_for qs g c = Some r"
  using assms
proof (induction rule: list_all2_induct)
  case Nil
  then show ?case by simp
next
  case (Cons p ps q qs)
  from Cons.prems obtain z where z: "p c = Some z"
    by (cases "p c") simp_all
  from settled_inD [OF Cons.hyps(1) z] z Cons.prems Cons.IH show ?case
    by (auto split: sum.splits returned.splits)
qed

lemma settled_in_alt:
  assumes "list_all2 settled_in ps qs"
  shows "settled_in (alt ps f) (alt qs f)"
  unfolding settled_in_def alt_def by (blast intro: alt_for_settled [OF assms])

lemma parser_of_deeper:
  "settled_in (parser_of k RegExp objects g) (parser_of (Suc k) RegExp objects g)"
proof (induction k RegExp objects g rule: parser_of.induct)
  case (1 k RegExp objects s f)
  show ?case by (simp add: settled_in_refl)
next
  case (2 k RegExp objects chars f)
  show ?case by (simp add: settled_in_refl)
next
  case (3 k RegExp objects gs f)
  have "list_all2 settled_in (map (parser_of k RegExp objects) gs) (map (parser_of (Suc k) RegExp objects) gs)"
    using "3.IH" by (simp add: list_all2_map1 list_all2_map2 list_all2_same)
  then show ?case by (simp add: settled_in_seq)
next
  case (4 k RegExp objects g n f)
  then show ?case by (simp add: settled_in_rep)
next
  case (5 k RegExp objects g f)
  then show ?case by (simp add: settled_in_opt)
next
  case (6 k RegExp objects gs f)
  have "list_all2 settled_in (map (parser_of k RegExp objects) gs) (map (parser_of (Suc k) RegExp objects) gs)"
    using "6.IH" by (simp add: list_all2_map1 list_all2_map2 list_all2_same)
  then show ?case by (simp add: settled_in_alt)
next
  case (7 RegExp objects ctx name)
  show ?case by (simp add: settled_in_def)
next
  case (8 k RegExp objects ctx name)
  show ?case
  proof (cases "objects ctx name")
    case None
    then show ?thesis by (simp add: settled_in_def ref_def property_def)
  next
    case (Some y)
    from "8.IH" [OF Some] Some show ?thesis
      by (simp add: settled_in_def ref_def property_def)
  qed
qed

lemma parser_of_depth_mono:
  "k \<le> k' \<Longrightarrow> parser_of k RegExp objects g c = Some r \<Longrightarrow> parser_of k' RegExp objects g c = Some r"
proof (induction k' rule: nat_induct_at_least)
  case base
  then show ?case .
next
  case (Suc n)
  from settled_inD [OF parser_of_deeper Suc.IH [OF Suc.prems]] show ?case .
qed

section \<open>Cursors only move forward\<close>

lemma match_array_cursor: "match_array r st = Return (Match v c') \<Longrightarrow> c' = st"
  by (simp add: match_array_def split: option.splits sum.splits)

lemma never_rewinds_str: "never_rewinds (str s f)"
  by (auto simp: never_rewinds_def str_def read_def Let_def split: if_splits
           dest!: match_array_cursor)

lemma never_rewinds_char: "never_rewinds (char RegExp chars f)"
  by (auto simp: never_rewinds_def char_def read_def Let_def split: if_splits sum.splits
           dest!: match_array_cursor)

lemma seq_step_offset:
  assumes "never_rewinds p"
    and "\<forall>acc. r = Return acc \<longrightarrow> offset c \<le> offset (state acc)"
  shows "\<forall>acc. seq_step r p = Return acc \<longrightarrow> offset c \<le> offset (state acc)"
  using assms
  by (fastforce simp: seq_step_def never_rewinds_def
                split: option.splits sum.splits if_splits returned.splits)

lemma seq_fold_offset:
  assumes "\<forall>p \<in> set ps. never_rewinds p"
    and "\<forall>acc. r = Return acc \<longrightarrow> offset c \<le> offset (state acc)"
  shows "\<forall>acc. foldl seq_step r ps = Return acc \<longrightarrow> offset c \<le> offset (state acc)"
  using assms
proof (induction ps arbitrary: r)
  case Nil
  then show ?case by simp
next
  case (Cons p ps)
  have "\<forall>acc. seq_step r p = Return acc \<longrightarrow> offset c \<le> offset (state acc)"
    using Cons.prems by (intro seq_step_offset) simp_all
  with Cons.IH [of "seq_step r p"] Cons.prems(1) show ?case by simp
qed

lemma never_rewinds_seq:
  assumes "\<forall>p \<in> set ps. never_rewinds p"
  shows "never_rewinds (seq ps f)"
  unfolding never_rewinds_def
proof (intro allI impI)
  fix c v c'
  assume a: "seq ps f c = Return (Match v c')"
  have "\<forall>acc. foldl seq_step (Return \<lparr>success = True, state = c, matches = []\<rparr>) ps = Return acc
          \<longrightarrow> offset c \<le> offset (state acc)"
    using assms by (intro seq_fold_offset) simp_all
  with a show "offset c \<le> offset c'"
    by (auto simp: seq_def split: option.splits sum.splits if_splits dest!: match_array_cursor)
qed

lemma rep_while_offset:
  assumes "rep_while p ms c = Some y"
  shows "never_rewinds p \<longrightarrow> (\<forall>ms' c'. y = Inr (ms', c') \<longrightarrow> offset c \<le> offset c')"
  by (rule rep_while.raw_induct
        [where P = "\<lambda>p ms c y. never_rewinds p \<longrightarrow> (\<forall>ms' c'. y = Inr (ms', c') \<longrightarrow> offset c \<le> offset c')",
         OF _ assms])
     (fastforce simp: never_rewinds_def split: option.splits sum.splits returned.splits)

lemma never_rewinds_rep:
  assumes "never_rewinds p"
  shows "never_rewinds (rep p n f)"
  unfolding never_rewinds_def
proof (intro allI impI)
  fix c v c'
  assume a: "rep p n f c = Return (Match v c')"
  then obtain ms where "rep_while p [] c = Return (ms, c')"
    by (auto simp: rep_def split: option.splits sum.splits if_splits dest!: match_array_cursor)
  from rep_while_offset [OF this] assms show "offset c \<le> offset c'" by simp
qed

lemma never_rewinds_opt:
  assumes "never_rewinds p"
  shows "never_rewinds (opt p f)"
  using assms
  by (fastforce simp: never_rewinds_def opt_def split: option.splits sum.splits returned.splits
                dest!: match_array_cursor)

lemma alt_for_offset:
  assumes "\<forall>p \<in> set ps. never_rewinds p"
  shows "alt_for ps g c = Return (Match v c') \<Longrightarrow> offset c \<le> offset c'"
  using assms
  by (induction ps)
     (auto simp: never_rewinds_def split: option.splits sum.splits returned.splits
           dest!: match_array_cursor)

lemma never_rewinds_alt:
  assumes "\<forall>p \<in> set ps. never_rewinds p"
  shows "never_rewinds (alt ps f)"
  using alt_for_offset [OF assms] by (auto simp: never_rewinds_def alt_def)

lemma never_rewinds_ref:
  assumes "\<forall>q. property (heap ctx) name = Some q \<longrightarrow> never_rewinds q"
  shows "never_rewinds (ref ctx name heap)"
  using assms by (auto simp: never_rewinds_def ref_def split: option.splits)

lemma never_rewinds_parser_of: "never_rewinds (parser_of k RegExp objects g)"
proof (induction k RegExp objects g rule: parser_of.induct)
  case (1 k RegExp objects s f)
  then show ?case by (simp add: never_rewinds_str)
next
  case (2 k RegExp objects chars f)
  then show ?case by (simp add: never_rewinds_char)
next
  case (3 k RegExp objects gs f)
  then show ?case by (simp add: never_rewinds_seq)
next
  case (4 k RegExp objects g n f)
  then show ?case by (simp add: never_rewinds_rep)
next
  case (5 k RegExp objects g f)
  then show ?case by (simp add: never_rewinds_opt)
next
  case (6 k RegExp objects gs f)
  then show ?case by (simp add: never_rewinds_alt)
next
  case (7 RegExp objects ctx name)
  then show ?case by (simp add: never_rewinds_def)
next
  case (8 k RegExp objects ctx name)
  show ?case
  proof (cases "objects ctx name")
    case None
    then show ?thesis by (simp add: never_rewinds_def ref_def property_def)
  next
    case (Some y)
    from "8.IH" [OF Some] Some show ?thesis
      by (simp add: never_rewinds_def ref_def property_def)
  qed
qed

text \<open>
  Claim C6. A parser built from \<open>str\<close>, \<open>char\<close>, \<open>seq\<close>, \<open>rep\<close>, \<open>opt\<close>, \<open>alt\<close> and \<open>ref\<close>,
  over registries whose entries are built in the same way (recursive ones included,
  whatever the regular-expression engine and the formatters do), never moves the cursor
  backwards: when it matches at \<open>c\<close> and returns \<open>c'\<close>, the offset of \<open>c'\<close> is at least
  that of \<open>c\<close>. A failure is \<open>null\<close>, which carries no cursor.
\<close>

theorem built_parsers_never_rewind:
  "parser_of k RegExp objects g c = Return (Match v c') \<Longrightarrow> offset c \<le> offset c'"
  using never_rewinds_parser_of [of k RegExp objects g] by (simp add: never_rewinds_def)

theorem built_parsers_never_rewind_witness:
  "parser_of (Suc (Suc (Suc 0))) class_RegExp nested_ctx (GRef 0 ''nested'') \<lparr>string = ''((7))'', offset = 0\<rparr>
     = Return (Match
         (JObject [(''alt'', JObject [(''seq'', JArray
            [JObject [(''str'', JString ''('')],
             JObject [(''alt'', JObject [(''seq'', JArray
                [JObject [(''str'', JString ''('')],
                 JObject [(''alt'', JObject [(''char'', JString ''7'')])],
                 JObject [(''str'', JString '')'')]])])],
             JObject [(''str'', JString '')'')]])])])
          \<lparr>string = ''((7))'', offset = 5\<rparr>)
   \<and> offset \<lparr>string = ''((7))'', offset = 0\<rparr> \<le> offset \<lparr>string = ''((7))'', offset = 5\<rparr>"
proof -
  have run: "parser_of (Suc (Suc (Suc 0))) class_RegExp nested_ctx (GRef 0 ''nested'') \<lparr>string = ''((7))'', offset = 0\<rparr>
     = Return (Match
         (JObject [(''alt'', JObject [(''seq'', JArray
            [JObject [(''str'', JString ''('')],
             JObject [(''alt'', JObject [(''seq'', JArray
                [JObject [(''str'', JString ''('')],
                 JObject [(''alt'', JObject [(''char'', JString ''7'')])],
                 JObject [(''str'', JString '')'')]])])],
             JObject [(''str'', JString '')'')]])])])
          \<lparr>string = ''((7))'', offset = 5\<rparr>)"
    by (simp add: run_defs nested_ctx_def)
  from run built_parsers_never_rewind [OF run] show ?thesis
    by blast
qed

end
